theory Spec2Isabelle
  imports Complex_Main "HOL-Library.Log_Nat" "HOL-Library.Sublist" "HOL-Library.Code_Target_Nat"
begin

section \<open>Data model\<close>

text \<open>
  \<^verbatim>\<open>src/types.ts\<close>: the enum \<^verbatim>\<open>AppState\<close>. \<^verbatim>\<open>src/App.tsx\<close>: the six \<^verbatim>\<open>useState\<close> cells of
  the component \<^verbatim>\<open>App\<close> form the session state; a frame is an object
  \<^verbatim>\<open>{ id: string, dataUrl: string }\<close> (the field \<^verbatim>\<open>id\<close> is called \<open>frame_id\<close> here, \<open>id\<close>
  being the identity function of HOL). JavaScript strings are modelled as byte strings in
  UTF-8; JavaScript numbers that the code computes with are rationals, and every arithmetic
  operation on them is followed by the rounding of IEEE 754 binary64 (\<open>fl64\<close> below).
  \<open>gifSpeed\<close> holds a finite double: it starts at 120, and \<^verbatim>\<open>setGifSpeed\<close> is called with
  \<^verbatim>\<open>Number(e.target.value)\<close> of the range input and of the number input only.
\<close>

datatype AppState = Capturing | Processing | Animating | Error

record frame =
  frame_id :: string
  dataUrl :: string

record state =
  appState :: AppState
  images :: "frame list"
  generatedGif :: "string option"
  loading :: bool
  error :: "string option"
  gifSpeed :: rat

definition initial_state :: state where
  "initial_state =
     \<lparr>appState = Capturing, images = [], generatedGif = None, loading = False,
      error = None, gifSpeed = 120\<rparr>"

section \<open>JavaScript numbers\<close>

text \<open>
  \<open>height / width\<close> and \<open>(\<dots>) * maxDimension\<close> are operations on doubles: the exact
  quotient or product, rounded to the nearest number with a 53 bit significand, ties to the
  even significand. \<open>exponent2 x\<close> is the binary exponent of a positive rational
  (\<open>2 powi exponent2 x \<le> x < 2 powi (exponent2 x + 1)\<close>, lemmas \<open>exponent2_le\<close> and
  \<open>exponent2_gt\<close>). Below \<open>2 powi (- 1022)\<close> the numbers are subnormal: the exponent stays at
  \<open>- 1022\<close>, the spacing at \<open>2 powi (- 1074)\<close>, and a quotient below half of that is rounded
  to 0. A number is a rational here, so the model has no infinity: it is exact for results
  below \<open>2 ^ 1024\<close>, and those are all the results of the code, which divides a smaller
  image dimension by the larger one, multiplies the quotient by 1920, and divides the
  finite double \<open>gifSpeed\<close> by 1000.
  \<^verbatim>\<open>Math.round\<close> is exact: the nearest integer, a tie going to the larger one.
\<close>

definition round_to_even :: "rat \<Rightarrow> int" where
  "round_to_even x =
     (let f = \<lfloor>x\<rfloor>; d = x - of_int f
      in if d < 1 / 2 then f else if 1 / 2 < d then f + 1 else if even f then f else f + 1)"

definition exponent2 :: "rat \<Rightarrow> int" where
  "exponent2 x =
     (let (a, b) = quotient_of x; d = bitlen a - bitlen b
      in if 2 powi d \<le> x then d else d - 1)"

definition round53 :: "rat \<Rightarrow> rat" where
  "round53 x =
     (let u = 2 powi (max (exponent2 x) (- 1022) - 52) in of_int (round_to_even (x / u)) * u)"

definition fl64 :: "rat \<Rightarrow> rat" where
  "fl64 x = (if x = 0 then 0 else if 0 < x then round53 x else - round53 (- x))"

definition Math_round :: "rat \<Rightarrow> int" where
  "Math_round x = \<lfloor>x + 1 / 2\<rfloor>"

section \<open>The browser\<close>

text \<open>
  What the code asks of the browser is a parameter of the model:
  \<^item> \<open>readAsDataURL\<close>: the \<^verbatim>\<open>FileReader\<close>; \<open>Some\<close> of the result when \<^verbatim>\<open>onload\<close> fires,
    \<open>None\<close> when \<^verbatim>\<open>onerror\<close> fires;
  \<^item> \<open>load_image\<close>: an \<^verbatim>\<open>Image\<close> element whose \<^verbatim>\<open>src\<close> is set; \<open>Some\<close> of the natural
    width and height when \<^verbatim>\<open>onload\<close> fires, \<open>None\<close> when \<^verbatim>\<open>onerror\<close> fires;
  \<^item> \<open>getContext\<close>: whether \<^verbatim>\<open>canvas.getContext('2d')\<close> is not null;
  \<^item> \<open>toDataURL\<close>: the PNG encoding of a canvas;
  \<^item> \<open>randomUUID\<close>: the identifier that \<^verbatim>\<open>crypto.randomUUID()\<close> returns for the
    file at a position of the batch;
  \<^item> \<open>createGIF\<close>: the object that \<^verbatim>\<open>gifshot.createGIF\<close> passes to its callback.
\<close>

record File =
  file_name :: string
  file_type :: string

record canvas =
  width :: nat
  height :: nat
  drawn :: "(string \<times> nat \<times> nat) option"

record createGIF_options =
  opt_images :: "string list"
  interval :: rat
  numWorkers :: nat
  gifWidth :: nat
  gifHeight :: nat

record createGIF_obj =
  obj_error :: bool
  obj_image :: string
  obj_errorMsg :: string

record browser =
  readAsDataURL :: "File \<Rightarrow> string option"
  load_image :: "string \<Rightarrow> (nat \<times> nat) option"
  getContext :: "canvas \<Rightarrow> bool"
  toDataURL :: "canvas \<Rightarrow> string"
  randomUUID :: "nat \<Rightarrow> string"
  createGIF :: "createGIF_options \<Rightarrow> createGIF_obj"

text \<open>\<^verbatim>\<open>ctx.drawImage(img, 0, 0, w, h)\<close>: the image is drawn at the origin, scaled to \<open>w \<times> h\<close>.\<close>

definition drawImage :: "canvas \<Rightarrow> string \<Rightarrow> nat \<Rightarrow> nat \<Rightarrow> canvas" where
  "drawImage c src w h = c\<lparr>drawn := Some (src, w, h)\<rparr>"

section \<open>Messages\<close>

definition read_failed_message :: string where
  "read_failed_message =
     ''Kh'' @ [CHR 0xC3, CHR 0xB4] @ ''ng th'' @ [CHR 0xE1, CHR 0xBB, CHR 0x83] @ '' '' @
     [CHR 0xC4, CHR 0x91, CHR 0xE1, CHR 0xBB, CHR 0x8D] @ ''c t'' @ [CHR 0xE1, CHR 0xBB, CHR 0x87] @
     ''p '' @ [CHR 0xC4, CHR 0x91, CHR 0xC3, CHR 0xA3] @ '' ch'' @ [CHR 0xE1, CHR 0xBB, CHR 0x8D] @
     ''n.''"

definition two_images_message :: string where
  "two_images_message =
     ''Vui l'' @ [CHR 0xC3, CHR 0xB2] @ ''ng t'' @ [CHR 0xE1, CHR 0xBA, CHR 0xA3] @ ''i l'' @
     [CHR 0xC3, CHR 0xAA] @ ''n '' @ [CHR 0xC3, CHR 0xAD] @ ''t nh'' @ [CHR 0xE1, CHR 0xBA, CHR 0xA5] @
     ''t 2 '' @ [CHR 0xE1, CHR 0xBA, CHR 0xA3] @ ''nh '' @
     [CHR 0xC4, CHR 0x91, CHR 0xE1, CHR 0xBB, CHR 0x83] @ '' t'' @ [CHR 0xE1, CHR 0xBA, CHR 0xA1] @
     ''o GIF.''"

definition gif_failed_prefix :: string where
  "gif_failed_prefix =
     ''T'' @ [CHR 0xE1, CHR 0xBA, CHR 0xA1] @ ''o GIF th'' @ [CHR 0xE1, CHR 0xBA, CHR 0xA5] @
     ''t b'' @ [CHR 0xE1, CHR 0xBA, CHR 0xA1] @ ''i: ''"

definition dimensions_failed_message :: string where
  "dimensions_failed_message =
     ''Kh'' @ [CHR 0xC3, CHR 0xB4] @ ''ng th'' @ [CHR 0xE1, CHR 0xBB, CHR 0x83] @ '' '' @
     [CHR 0xC4, CHR 0x91, CHR 0xE1, CHR 0xBB, CHR 0x8D] @ ''c k'' @ [CHR 0xC3, CHR 0xAD] @
     ''ch th'' @ [CHR 0xC6, CHR 0xB0, CHR 0xE1, CHR 0xBB, CHR 0x9B] @ ''c '' @
     [CHR 0xE1, CHR 0xBA, CHR 0xA3] @ ''nh '' @ [CHR 0xC4, CHR 0x91, CHR 0xE1, CHR 0xBB, CHR 0x83] @
     '' t'' @ [CHR 0xE1, CHR 0xBA, CHR 0xA1] @ ''o GIF.''"

section \<open>processImage\<close>

text \<open>
  \<^verbatim>\<open>processImage(dataUrl, maxDimension = 1920)\<close> returns a promise: \<open>Inl\<close> is the message of
  the \<^verbatim>\<open>Error\<close> it rejects with, \<open>Inr\<close> the string it resolves with.
  \<open>processImage_canvas\<close> is the \<^verbatim>\<open>onload\<close> handler up to the canvas on which the image has
  been drawn; \<open>processImage\<close> encodes that canvas.
\<close>

definition processImage_canvas :: "browser \<Rightarrow> string \<Rightarrow> nat \<Rightarrow> string + canvas" where
  "processImage_canvas env url maxDimension =
     (case load_image env url of
        None \<Rightarrow> Inl ''Failed to load image for processing.''
      | Some (w, h) \<Rightarrow>
          if w \<le> maxDimension \<and> h \<le> maxDimension then
            (let c = \<lparr>width = w, height = h, drawn = None\<rparr>
             in if \<not> getContext env c then Inl ''Could not get canvas context.''
                else Inr (drawImage c url w h))
          else
            (let (newWidth, newHeight) =
               (if h < w
                then (maxDimension,
                      nat (Math_round (fl64 (fl64 (of_nat h / of_nat w) * of_nat maxDimension))))
                else (nat (Math_round (fl64 (fl64 (of_nat w / of_nat h) * of_nat maxDimension))),
                      maxDimension));
                 c = \<lparr>width = newWidth, height = newHeight, drawn = None\<rparr>
             in if \<not> getContext env c then Inl ''Could not get canvas context for resizing.''
                else Inr (drawImage c url newWidth newHeight)))"

definition processImage :: "browser \<Rightarrow> string \<Rightarrow> nat \<Rightarrow> string + string" where
  "processImage env url maxDimension =
     (case processImage_canvas env url maxDimension of
        Inl message \<Rightarrow> Inl message
      | Inr c \<Rightarrow> Inr (toDataURL env c))"

section \<open>Promises\<close>

text \<open>
  A promise is fulfilled with a value, rejected with the message of an \<^verbatim>\<open>Error\<close>, or never
  settles. \<^verbatim>\<open>Promise.all\<close> is run against a schedule: the indices of the promises in the
  order in which they settle. It keeps the values by index, is fulfilled with all of them
  when the last one arrives, and is rejected with the first rejection that arrives.
\<close>

datatype 'a promise = Fulfilled 'a | Rejected string | Pending

fun Promise_all_run :: "'a promise list \<Rightarrow> nat list \<Rightarrow> 'a option list \<Rightarrow> 'a list promise" where
  "Promise_all_run ps [] vals = Pending"
| "Promise_all_run ps (i # schedule) vals =
     (if length ps \<le> i then Promise_all_run ps schedule vals
      else case ps ! i of
             Pending \<Rightarrow> Promise_all_run ps schedule vals
           | Rejected reason \<Rightarrow> Rejected reason
           | Fulfilled v \<Rightarrow>
               (let vals' = vals[i := Some v]
                in if None \<notin> set vals' then Fulfilled (map the vals')
                   else Promise_all_run ps schedule vals'))"

definition Promise_all :: "'a promise list \<Rightarrow> nat list \<Rightarrow> 'a list promise" where
  "Promise_all ps schedule =
     (if ps = [] then Fulfilled [] else Promise_all_run ps schedule (replicate (length ps) None))"

section \<open>handleFileChange\<close>

text \<open>
  \<open>file_promise\<close> is the promise made for the file at position \<open>i\<close> of the selection. A file
  whose type does not start with \<^verbatim>\<open>image/\<close> resolves to \<^verbatim>\<open>null\<close>. When the reader's result is
  the empty string, neither \<^verbatim>\<open>resolve\<close> nor \<^verbatim>\<open>reject\<close> is called.
\<close>

definition file_promise :: "browser \<Rightarrow> nat \<Rightarrow> File \<Rightarrow> frame option promise" where
  "file_promise env i f =
     (if \<not> prefix ''image/'' (file_type f) then Fulfilled None
      else case readAsDataURL env f of
             None \<Rightarrow> Rejected read_failed_message
           | Some url \<Rightarrow>
               if url = [] then Pending
               else case processImage env url 1920 of
                      Inl message \<Rightarrow> Rejected message
                    | Inr processedImage \<Rightarrow>
                        Fulfilled (Some \<lparr>frame_id = randomUUID env i, dataUrl = processedImage\<rparr>))"

definition imagePromises :: "browser \<Rightarrow> File list \<Rightarrow> frame option promise list" where
  "imagePromises env files = map (\<lambda>(i, f). file_promise env i f) (enumerate 0 files)"

text \<open>
  The code after \<^verbatim>\<open>await Promise.all(imagePromises)\<close>: the \<^verbatim>\<open>try\<close>, \<^verbatim>\<open>catch\<close> and \<^verbatim>\<open>finally\<close>
  blocks, run on the state of the moment the promise settles. When it never settles, nothing
  runs. Every rejection in this code carries an \<^verbatim>\<open>Error\<close>, so the message set is its
  \<^verbatim>\<open>message\<close> and the fallback text of the \<^verbatim>\<open>catch\<close> block is never used. The reset of the
  file input after the blocks is no part of the state.
\<close>

definition handleFileChange_settled :: "frame option list promise \<Rightarrow> state \<Rightarrow> state" where
  "handleFileChange_settled p s =
     (case p of
        Fulfilled results \<Rightarrow>
          (let newImages = map the (filter (\<lambda>img. img \<noteq> None) results)
           in s\<lparr>images := images s @ newImages, loading := False\<rparr>)
      | Rejected message \<Rightarrow> s\<lparr>error := Some message, loading := False\<rparr>
      | Pending \<Rightarrow> s)"

text \<open>\<open>files\<close> is \<^verbatim>\<open>event.target.files\<close>, \<open>None\<close> when it is \<^verbatim>\<open>null\<close>.\<close>

definition handleFileChange :: "browser \<Rightarrow> File list option \<Rightarrow> nat list \<Rightarrow> state \<Rightarrow> state" where
  "handleFileChange env files schedule s =
     (case files of
        None \<Rightarrow> s
      | Some fs \<Rightarrow>
          if length fs = 0 then s
          else handleFileChange_settled (Promise_all (imagePromises env fs) schedule)
                 (s\<lparr>error := None, loading := True\<rparr>))"

section \<open>handleRemoveImage, handleBack\<close>

definition handleRemoveImage :: "string \<Rightarrow> state \<Rightarrow> state" where
  "handleRemoveImage i s = s\<lparr>images := filter (\<lambda>img. frame_id img \<noteq> i) (images s)\<rparr>"

definition handleBack :: "state \<Rightarrow> state" where
  "handleBack s = s\<lparr>appState := Capturing, generatedGif := None\<rparr>"

section \<open>handleCreateGif\<close>

text \<open>
  The callback of \<^verbatim>\<open>gifshot.createGIF\<close> and the \<^verbatim>\<open>onerror\<close> handler of \<^verbatim>\<open>firstImage\<close>, each on the
  state of the moment it runs.
\<close>

definition createGIF_callback :: "createGIF_obj \<Rightarrow> state \<Rightarrow> state" where
  "createGIF_callback obj s =
     (if \<not> obj_error obj then s\<lparr>generatedGif := Some (obj_image obj), appState := Animating\<rparr>
      else s\<lparr>error := Some (gif_failed_prefix @ obj_errorMsg obj), appState := Capturing\<rparr>)"

definition firstImage_onerror :: "state \<Rightarrow> state" where
  "firstImage_onerror s = s\<lparr>error := Some dimensions_failed_message, appState := Capturing\<rparr>"

text \<open>
  A run of \<^verbatim>\<open>handleCreateGif\<close>: the states the session passes through, one for each handler
  that runs, and the calls of the encoder. While the phase is \<open>Processing\<close> only the loading
  overlay is rendered, so nothing else runs between the handlers.
\<close>

record run =
  states :: "state list"
  encoder_calls :: "createGIF_options list"

definition handleCreateGif :: "browser \<Rightarrow> state \<Rightarrow> run" where
  "handleCreateGif env s =
     (if length (images s) < 2
      then \<lparr>states = [s\<lparr>error := Some two_images_message\<rparr>], encoder_calls = []\<rparr>
      else
        (let s1 = s\<lparr>appState := Processing, error := None\<rparr>;
             imageUrls = map dataUrl (images s);
             intervalInSeconds = fl64 (gifSpeed s / 1000)
         in case load_image env (dataUrl (images s ! 0)) of
              None \<Rightarrow> \<lparr>states = [s1, firstImage_onerror s1], encoder_calls = []\<rparr>
            | Some (w, h) \<Rightarrow>
                (let options = \<lparr>opt_images = imageUrls, interval = intervalInSeconds,
                                numWorkers = 2, gifWidth = w, gifHeight = h\<rparr>
                 in \<lparr>states = [s1, createGIF_callback (createGIF env options) s1],
                     encoder_calls = [options]\<rparr>)))"

section \<open>renderContent\<close>

text \<open>
  What \<^verbatim>\<open>renderContent\<close> shows of the state, phase by phase: the capturing screen (the frames,
  the slider on \<open>gifSpeed\<close>, the upload button that follows \<open>loading\<close>, the create button that
  follows \<open>isCreateDisabled\<close>), the loading overlay, the player of the generated GIF
  (\<^verbatim>\<open>null\<close> when there is none), and the error screen, the only place where \<^verbatim>\<open>{error}\<close>
  stands. \<open>displayed_error\<close> is the error message that a view shows.
\<close>

datatype view =
    CapturingView "frame list" rat bool bool
  | LoadingOverlay
  | AnimationPlayer string
  | Nothing
  | ErrorView "string option"

definition isCreateDisabled :: "state \<Rightarrow> bool" where
  "isCreateDisabled s = (length (images s) < 2 \<or> loading s)"

definition renderContent :: "state \<Rightarrow> view" where
  "renderContent s =
     (case appState s of
        Capturing \<Rightarrow> CapturingView (images s) (gifSpeed s) (loading s) (isCreateDisabled s)
      | Processing \<Rightarrow> LoadingOverlay
      | Animating \<Rightarrow>
          (case generatedGif s of
             None \<Rightarrow> Nothing
           | Some gifUrl \<Rightarrow> if gifUrl = [] then Nothing else AnimationPlayer gifUrl)
      | Error \<Rightarrow> ErrorView (error s))"

fun displayed_error :: "view \<Rightarrow> string option" where
  "displayed_error (ErrorView message) = message"
| "displayed_error v = None"

section \<open>An example browser\<close>

text \<open>
  A browser for the examples: the reader returns the name of a file as its content, except
  for the file \<open>unreadable\<close>; four sources decode, to 2560 \<times> 1302, 3000 \<times> 2000,
  800 \<times> 600 and 10000 \<times> 1, and so do the normalized encodings of the first three; the
  fourth is normalized to a canvas of height 0, whose encoding holds no image and does not
  decode; the encoder succeeds.
\<close>

definition example_browser :: browser where
  "example_browser =
     \<lparr>readAsDataURL = (\<lambda>f. if file_name f = ''unreadable'' then None else Some (file_name f)),
      load_image = (\<lambda>url.
         if url = ''wide'' then Some (2560, 1302)
         else if url = ''photo'' then Some (3000, 2000)
         else if url = ''small'' then Some (800, 600)
         else if url = ''sliver'' then Some (10000, 1)
         else if url = ''png:wide'' then Some (1920, 976)
         else if url = ''png:photo'' then Some (1920, 1280)
         else if url = ''png:small'' then Some (800, 600)
         else None),
      getContext = (\<lambda>c. True),
      toDataURL = (\<lambda>c. case drawn c of None \<Rightarrow> ''png:'' | Some (src, w, h) \<Rightarrow> ''png:'' @ src),
      randomUUID = (\<lambda>i. replicate (Suc i) CHR ''u''),
      createGIF = (\<lambda>options. \<lparr>obj_error = False, obj_image = ''gif'', obj_errorMsg = []\<rparr>)\<rparr>"

text \<open>The same browser with an encoder that fails with the message \<open>oom\<close>.\<close>

definition failing_encoder :: browser where
  "failing_encoder =
     example_browser\<lparr>createGIF :=
       (\<lambda>options. \<lparr>obj_error = True, obj_image = [], obj_errorMsg = ''oom''\<rparr>)\<rparr>"

definition example_frames :: "frame list" where
  "example_frames =
     [\<lparr>frame_id = ''a'', dataUrl = ''png:photo''\<rparr>,
      \<lparr>frame_id = ''b'', dataUrl = ''png:small''\<rparr>,
      \<lparr>frame_id = ''c'', dataUrl = ''png:wide''\<rparr>]"

section \<open>Rounding to a double\<close>

text \<open>
  The rounded number differs from the exact one by at most half the spacing. For a number
  of at least \<open>2 powi (- 1022)\<close> that is at most the fraction \<open>2 powi (- 53)\<close> of it; for every
  number it is at most that fraction plus \<open>2 powi (- 1075)\<close>.
\<close>

lemma round_to_even_err: "\<bar>of_int (round_to_even y) - y\<bar> \<le> 1/2"
  unfolding round_to_even_def Let_def by (auto simp: abs_if) linarith+

lemma round_to_even_nonneg: "0 \<le> y \<Longrightarrow> 0 \<le> round_to_even y"
  unfolding round_to_even_def Let_def by (auto simp: ) 

lemma exponent2_le:
  assumes "0 < x"
  shows "2 powi (exponent2 x) \<le> x"
proof -
  obtain a b where q: "quotient_of x = (a, b)" by (cases "quotient_of x")
  have b: "0 < b" using q by (rule quotient_of_denom_pos)
  have x: "x = of_int a / of_int b" using q by (rule quotient_of_div)
  have a: "0 < a" using assms b x by (simp add: zero_less_divide_iff)
  let ?d = "bitlen a - bitlen b"
  have la: "(2::rat) powi (bitlen a - 1) \<le> of_int a"
  proof -
    have "1 \<le> bitlen a" using a bitlen_eq_zero_iff[of a] bitlen_nonneg[of a] by linarith
    then have "(2::rat) powi (bitlen a - 1) = 2 ^ nat (bitlen a - 1)" by (simp add: power_int_def)
    also have "\<dots> = of_int (2 ^ nat (bitlen a - 1))" by simp
    also have "\<dots> \<le> of_int a" using bitlen_bounds[OF a] by (simp only: of_int_le_iff)
    finally show ?thesis .
  qed
  have lb: "of_int b \<le> (2::rat) powi (bitlen b)"
  proof -
    have "of_int b \<le> (of_int (2 ^ nat (bitlen b)) :: rat)"
      using bitlen_bounds[OF b] by (simp only: of_int_le_iff) simp
    also have "\<dots> = 2 powi (bitlen b)" using bitlen_nonneg[of b] by (simp add: power_int_def)
    finally show ?thesis .
  qed
  have "(2::rat) powi (?d - 1) = 2 powi (bitlen a - 1) / 2 powi (bitlen b)"
    using power_int_diff[of "2::rat" "bitlen a - 1" "bitlen b"] by (simp add: algebra_simps)
  also have "\<dots> \<le> of_int a / of_int b"
    using la lb a b by (intro frac_le) auto
  finally have low: "(2::rat) powi (?d - 1) \<le> x" using x by simp
  show ?thesis
    using low q by (simp add: exponent2_def Let_def)
qed

lemma exponent2_gt:
  assumes "0 < x"
  shows "x < 2 powi (exponent2 x + 1)"
proof -
  obtain a b where q: "quotient_of x = (a, b)" by (cases "quotient_of x")
  have b: "0 < b" using q by (rule quotient_of_denom_pos)
  have x: "x = of_int a / of_int b" using q by (rule quotient_of_div)
  have a: "0 < a" using assms b x by (simp add: zero_less_divide_iff)
  let ?d = "bitlen a - bitlen b"
  have ua: "of_int a < (2::rat) powi (bitlen a)"
  proof -
    have "of_int a < (of_int (2 ^ nat (bitlen a)) :: rat)"
      using bitlen_bounds[OF a] by (simp only: of_int_less_iff)
    also have "\<dots> = 2 powi (bitlen a)" using bitlen_nonneg[of a] by (simp add: power_int_def)
    finally show ?thesis .
  qed
  have lb: "(2::rat) powi (bitlen b - 1) \<le> of_int b"
  proof -
    have "1 \<le> bitlen b" using b bitlen_eq_zero_iff[of b] bitlen_nonneg[of b] by linarith
    then have "(2::rat) powi (bitlen b - 1) = 2 ^ nat (bitlen b - 1)" by (simp add: power_int_def)
    also have "\<dots> = of_int (2 ^ nat (bitlen b - 1))" by simp
    also have "\<dots> \<le> of_int b" using bitlen_bounds[OF b] by (simp only: of_int_le_iff)
    finally show ?thesis .
  qed
  have p: "(0::rat) < 2 powi (bitlen b - 1)" by simp
  have b': "(0::rat) < of_int b" using b by simp
  have pp: "(0::rat) < of_int b * 2 powi (bitlen b - 1)" using b' p by (rule mult_pos_pos)
  have a': "(0::rat) \<le> of_int a" using a by simp
  have "of_int a / of_int b \<le> of_int a / (2::rat) powi (bitlen b - 1)"
    using lb a' pp by (rule divide_left_mono)
  also have "\<dots> < 2 powi (bitlen a) / 2 powi (bitlen b - 1)"
    using ua p by (intro divide_strict_right_mono)
  also have "\<dots> = 2 powi (?d + 1)"
    using power_int_diff[of "2::rat" "bitlen a" "bitlen b - 1"] by (simp add: algebra_simps)
  finally have up: "x < 2 powi (?d + 1)" using x by simp
  show ?thesis
    using up q by (auto simp: exponent2_def Let_def)
qed

lemma exponent2_normal:
  assumes "2 powi (- 1022) \<le> x"
  shows "- 1022 \<le> exponent2 x"
proof (rule ccontr)
  assume "\<not> - 1022 \<le> exponent2 x"
  then have "exponent2 x + 1 \<le> - 1022" by simp
  then have "(2::rat) powi (exponent2 x + 1) \<le> 2 powi (- 1022)"
    by (intro power_int_increasing) simp_all
  moreover have "0 < x" using assms by (rule less_le_trans[rotated]) simp
  ultimately show False using exponent2_gt[of x] assms by simp
qed

lemma round53_err_ulp:
  assumes "0 < x"
  shows "\<bar>round53 x - x\<bar> \<le> 2 powi (max (exponent2 x) (- 1022) - 53)"
proof -
  define e where "e = max (exponent2 x) (- 1022)"
  define u :: rat where "u = 2 powi (e - 52)"
  have u: "0 < u" by (simp add: u_def)
  have r: "round53 x = of_int (round_to_even (x / u)) * u"
    by (simp add: round53_def u_def e_def Let_def)
  have "round53 x - x = (of_int (round_to_even (x / u)) - x / u) * u"
    using u by (simp add: r algebra_simps)
  then have "\<bar>round53 x - x\<bar> = \<bar>of_int (round_to_even (x / u)) - x / u\<bar> * u"
    using u by (simp add: abs_mult)
  also have "\<dots> \<le> 1/2 * u"
    using round_to_even_err[of "x / u"] u by (intro mult_right_mono) auto
  also have "\<dots> = 2 powi (e - 53)"
    using power_int_diff[of "2::rat" "e - 52" 1] by (simp add: u_def)
  finally show ?thesis by (simp add: e_def)
qed

lemma round53_err:
  assumes "2 powi (- 1022) \<le> x"
  shows "\<bar>round53 x - x\<bar> \<le> x / 2 ^ 53"
proof -
  have x: "0 < x" using assms by (rule less_le_trans[rotated]) simp
  have m: "max (exponent2 x) (- 1022) = exponent2 x"
    using exponent2_normal[OF assms] by simp
  have "\<bar>round53 x - x\<bar> \<le> 2 powi (exponent2 x - 53)"
    using round53_err_ulp[OF x] by (simp only: m)
  also have "\<dots> = 2 powi (exponent2 x) / 2 ^ 53"
    using power_int_diff[of "2::rat" "exponent2 x" 53] by simp
  also have "\<dots> \<le> x / 2 ^ 53"
    using exponent2_le[OF x] by (simp add: divide_right_mono)
  finally show ?thesis .
qed

lemma round53_err_any:
  assumes "0 < x"
  shows "\<bar>round53 x - x\<bar> \<le> x / 2 ^ 53 + 2 powi (- 1075)"
proof (cases "2 powi (- 1022) \<le> x")
  case True
  have "(0::rat) \<le> 2 powi (- 1075)" by simp
  with round53_err[OF True] show ?thesis by linarith
next
  case False
  then have "x < 2 powi (- 1022)" by simp
  with exponent2_le[OF assms] have "(2::rat) powi (exponent2 x) < 2 powi (- 1022)" by simp
  then have "exponent2 x < - 1022"
    by (metis power_int_increasing not_le one_le_numeral)
  then have m: "max (exponent2 x) (- 1022) = - 1022" by simp
  have "\<bar>round53 x - x\<bar> \<le> 2 powi (- 1075)"
    using round53_err_ulp[OF assms] by (simp only: m) simp
  moreover have "0 \<le> x / 2 ^ 53" using assms by simp
  ultimately show ?thesis by linarith
qed

lemma round53_nonneg: "0 < x \<Longrightarrow> 0 \<le> round53 x"
  by (simp add: round53_def Let_def round_to_even_nonneg)

lemma fl64_err: "x = 0 \<or> 2 powi (- 1022) \<le> x \<Longrightarrow> \<bar>fl64 x - x\<bar> \<le> x / 2 ^ 53"
proof (cases "x = 0")
  case True
  then show ?thesis by (simp add: fl64_def)
next
  case False
  assume "x = 0 \<or> 2 powi (- 1022) \<le> x"
  with False have n: "2 powi (- 1022) \<le> x" by simp
  have "0 < x" using n by (rule less_le_trans[rotated]) simp
  with round53_err[OF n] show ?thesis by (simp add: fl64_def)
qed

lemma fl64_err_any: "0 \<le> x \<Longrightarrow> \<bar>fl64 x - x\<bar> \<le> x / 2 ^ 53 + 2 powi (- 1075)"
  using round53_err_any[of x] by (auto simp: fl64_def)

lemma fl64_nonneg: "0 \<le> x \<Longrightarrow> 0 \<le> fl64 x"
  using round53_nonneg[of x] by (auto simp: fl64_def)

lemma fl64_underflow:
  assumes "0 \<le> x" and "x < 2 powi (- 1075)"
  shows "fl64 x = 0"
proof (cases "x = 0")
  case True
  then show ?thesis by (simp add: fl64_def)
next
  case False
  with assms(1) have x: "0 < x" by simp
  have "(2::rat) powi (exponent2 x) < 2 powi (- 1075)"
    using exponent2_le[OF x] assms(2) by simp
  then have "exponent2 x < - 1075"
    by (metis power_int_increasing not_le one_le_numeral)
  then have m: "max (exponent2 x) (- 1022) = - 1022" by simp
  define y where "y = x / 2 powi (- 1074)"
  have "(2::rat) powi (- 1075) = 2 powi (- 1074) / 2"
    using power_int_diff[of "2::rat" "- 1074" 1] by simp
  with assms(2) have "x < 2 powi (- 1074) / 2" by simp
  then have y1: "y < 1 / 2" by (simp add: y_def field_simps)
  have y0: "0 \<le> y" using x by (simp add: y_def)
  have "\<lfloor>y\<rfloor> = 0" using y0 y1 by linarith
  then have "round_to_even y = 0" using y1 by (simp add: round_to_even_def Let_def)
  then have "round53 x = 0" by (simp add: round53_def Let_def m y_def)
  with x show ?thesis by (simp add: fl64_def)
qed

lemma Math_round_err: "\<bar>of_int (Math_round y) - y\<bar> \<le> 1/2"
  unfolding Math_round_def by (simp add: abs_if) linarith

lemma scaled_error:
  fixes a b :: nat
  assumes ab: "a \<le> b" and b0: "0 < b" and b32: "b < 2 ^ 32"
  defines "x \<equiv> of_nat a * 1920 / (of_nat b :: rat)"
  defines "y \<equiv> fl64 (fl64 (of_nat a / of_nat b) * 1920)"
  shows "\<bar>y - x\<bar> \<le> 5760 / 2 ^ 53" and "0 \<le> y"
proof -
  define q :: rat where "q = of_nat a / of_nat b"
  have q0: "0 \<le> q" and q1: "q \<le> 1" using ab b0 by (simp_all add: q_def)
  have tiny: "(2::rat) powi (- 1022) \<le> 1 / 2 ^ 33"
  proof -
    have "(2::rat) powi (- 1022) \<le> 2 powi (- 33)" by (intro power_int_increasing) simp_all
    also have "\<dots> = 1 / 2 ^ 33" by (simp add: power_int_minus_divide)
    finally show ?thesis .
  qed
  have qlow: "1 / 2 ^ 32 \<le> q" if "a \<noteq> 0"
  proof -
    have "(of_nat b :: rat) \<le> 2 ^ 32" using b32 by (metis less_imp_le of_nat_le_iff of_nat_numeral of_nat_power)
    moreover have "(1::rat) \<le> of_nat a" using that by simp
    moreover have "(0::rat) < of_nat b" using b0 by simp
    ultimately have "(1::rat) / 2 ^ 32 \<le> of_nat a / of_nat b" by (intro frac_le) simp_all
    then show ?thesis by (simp add: q_def)
  qed
  have qn: "q = 0 \<or> 2 powi (- 1022) \<le> q"
  proof (cases "a = 0")
    case True
    then show ?thesis by (simp add: q_def)
  next
    case False
    have "(1::rat) / 2 ^ 33 \<le> 1 / 2 ^ 32" by simp
    with tiny qlow[OF False] show ?thesis by linarith
  qed
  have f0: "0 \<le> fl64 q" using q0 by (rule fl64_nonneg)
  have e1: "\<bar>fl64 q - q\<bar> \<le> q / 2 ^ 53" using qn by (rule fl64_err)
  define p :: rat where "p = fl64 q * 1920"
  have pn: "p = 0 \<or> 2 powi (- 1022) \<le> p"
  proof (cases "a = 0")
    case True
    then show ?thesis by (simp add: p_def q_def fl64_def)
  next
    case False
    have "q / 2 ^ 53 \<le> q / 2" using q0 by (intro divide_left_mono) simp_all
    with e1 have "q / 2 \<le> fl64 q" by linarith
    with qlow[OF False] have "1 / 2 ^ 33 \<le> fl64 q" by simp
    then have "1 / 2 ^ 33 \<le> p" by (simp add: p_def)
    with tiny show ?thesis by linarith
  qed
  have p0: "0 \<le> p" using f0 by (simp add: p_def)
  have xq: "x = q * 1920" by (simp add: x_def q_def)
  have px: "p - x = (fl64 q - q) * 1920" by (simp add: p_def xq algebra_simps)
  have "\<bar>p - x\<bar> = \<bar>fl64 q - q\<bar> * 1920" unfolding px abs_mult by simp
  also have "\<dots> \<le> q / 2 ^ 53 * 1920" using e1 by (intro mult_right_mono) auto
  also have "\<dots> \<le> 1920 / 2 ^ 53" using q1 by simp
  finally have e2: "\<bar>p - x\<bar> \<le> 1920 / 2 ^ 53" .
  have x1: "x \<le> 1920" using q1 by (simp add: xq)
  have t: "(1920::rat) / 2 ^ 53 \<le> 1920" by simp
  have p1: "p \<le> 3840" using e2 x1 t by linarith
  have e3: "\<bar>fl64 p - p\<bar> \<le> p / 2 ^ 53" using pn by (rule fl64_err)
  have "p / 2 ^ 53 \<le> 3840 / 2 ^ 53" using p1 by (simp add: divide_right_mono)
  with e3 have e4: "\<bar>fl64 p - p\<bar> \<le> 3840 / 2 ^ 53" by linarith
  have y: "y = fl64 p" by (simp add: y_def p_def q_def)
  show "\<bar>y - x\<bar> \<le> 5760 / 2 ^ 53" using e2 e4 unfolding y by linarith
  show "0 \<le> y" unfolding y using p0 by (rule fl64_nonneg)
qed

lemma scaled_nearest:
  fixes a b :: nat
  assumes ab: "a \<le> b" and b0: "0 < b" and b32: "b < 2 ^ 32"
  defines "x \<equiv> of_nat a * 1920 / (of_nat b :: rat)"
  defines "r \<equiv> Math_round (fl64 (fl64 (of_nat a / of_nat b) * 1920))"
  shows "\<bar>of_int r - x\<bar> \<le> 1/2" and "0 \<le> r"
proof -
  define y where "y = fl64 (fl64 (of_nat a / of_nat b) * 1920)"
  have ey: "\<bar>y - x\<bar> \<le> 5760 / 2 ^ 53" and y0: "0 \<le> y"
    using scaled_error[OF ab b0 b32] by (simp_all add: y_def x_def)
  have r: "r = Math_round y" by (simp add: r_def y_def)
  show "0 \<le> r" using y0 by (simp add: r Math_round_def)
  have er: "\<bar>of_int r - y\<bar> \<le> 1/2" unfolding r by (rule Math_round_err)
  have erx: "\<bar>of_int r - x\<bar> \<le> 1/2 + 5760 / 2 ^ 53" using er ey by linarith
  define B :: int where "B = int b"
  define A :: int where "A = int a"
  have B0: "0 < B" and B32: "B < 2 ^ 32" using b0 b32 by (simp_all add: B_def)
  have xAB: "x = of_int A * 1920 / of_int B" by (simp add: x_def A_def B_def)
  define k :: int where "k = 2 * r * B - 3840 * A"
  have h: "(of_int r - x) * (2 * of_int B) = (of_int k :: rat)"
    using B0 by (simp add: xAB k_def field_simps)
  have "(of_int \<bar>k\<bar> :: rat) = \<bar>(of_int r - x) * (2 * of_int B)\<bar>"
    by (simp only: h of_int_abs)
  also have "\<dots> = \<bar>of_int r - x\<bar> * (2 * of_int B)"
    using B0 by (simp add: abs_mult)
  finally have hk: "(of_int \<bar>k\<bar> :: rat) = \<bar>of_int r - x\<bar> * (2 * of_int B)" .
  have "\<bar>of_int r - x\<bar> * (2 * of_int B) \<le> (1/2 + 5760 / 2 ^ 53) * (2 * of_int B)"
    using erx B0 by (intro mult_right_mono) auto
  also have "\<dots> = of_int B + 11520 * of_int B / 2 ^ 53" by (simp add: algebra_simps)
  also have "\<dots> < of_int B + 1"
  proof -
    have "(of_int B :: rat) < 2 ^ 32" using B32 by (metis of_int_less_iff of_int_numeral of_int_power)
    then show ?thesis by simp
  qed
  finally have "\<bar>of_int r - x\<bar> * (2 * of_int B) < of_int B + 1" .
  then have "(of_int \<bar>k\<bar> :: rat) < of_int B + 1" by (simp only: hk)
  then have "(of_int \<bar>k\<bar> :: rat) < of_int (B + 1)" by simp
  then have "\<bar>k\<bar> < B + 1" by (simp only: of_int_less_iff)
  then have i: "\<bar>k\<bar> \<le> B" by simp
  have "\<bar>of_int r - x\<bar> * (2 * of_int B) = (of_int \<bar>k\<bar> :: rat)" by (simp only: hk)
  also have "\<dots> \<le> of_int B" using i by (simp only: of_int_le_iff)
  finally have "\<bar>of_int r - x\<bar> * (2 * of_int B) \<le> of_int B" .
  then show "\<bar>of_int r - x\<bar> \<le> 1/2" using B0 by (simp add: field_simps)
qed

lemma nearest_is_Math_round:
  assumes "\<bar>of_int r - x\<bar> \<le> (1/2 :: rat)" and "frac x \<noteq> 1/2"
  shows "r = Math_round x"
proof -
  have a: "x \<noteq> of_int r + 1/2"
  proof
    assume e: "x = of_int r + 1/2"
    have "\<lfloor>x\<rfloor> = r" unfolding e by linarith
    then have "frac x = 1/2" by (simp add: frac_def e)
    with assms(2) show False by simp
  qed
  have b: "x \<noteq> of_int r - 1/2"
  proof
    assume e: "x = of_int r - 1/2"
    have "\<lfloor>x\<rfloor> = r - 1" unfolding e by linarith
    then have "frac x = 1/2" by (simp add: frac_def e)
    with assms(2) show False by simp
  qed
  have "of_int r \<le> x + 1/2" and "x + 1/2 < of_int r + 1"
    using assms(1) a b by linarith+
  then have "\<lfloor>x + 1/2\<rfloor> = r" by linarith
  then show ?thesis by (simp add: Math_round_def)
qed

lemma scaled_dimension:
  fixes a b :: nat
  assumes ab: "a \<le> b" and b0: "0 < b" and b32: "b < 2 ^ 32"
  defines "x \<equiv> of_nat a * 1920 / (of_nat b :: rat)"
  defines "n \<equiv> nat (Math_round (fl64 (fl64 (of_nat a / of_nat b) * of_nat 1920)))"
  shows "\<bar>of_nat n - x\<bar> \<le> 1/2" and "frac x \<noteq> 1/2 \<longrightarrow> int n = Math_round x"
proof -
  define r where "r = Math_round (fl64 (fl64 (of_nat a / of_nat b) * 1920))"
  have e: "\<bar>of_int r - x\<bar> \<le> 1/2" and r0: "0 \<le> r"
    using scaled_nearest[OF ab b0 b32] by (simp_all add: r_def x_def)
  have n: "int n = r" using r0 by (simp add: n_def r_def)
  have "(of_nat n :: rat) = of_int (int n)" by simp
  then have nr: "(of_nat n :: rat) = of_int r" by (simp only: n)
  show "\<bar>of_nat n - x\<bar> \<le> 1/2" using e by (simp only: nr)
  show "frac x \<noteq> 1/2 \<longrightarrow> int n = Math_round x"
    using nearest_is_Math_round[OF e] by (simp add: n)
qed

section \<open>Dimensions of a normalized image\<close>

lemma processImage_canvas_small:
  assumes "load_image env url = Some (w, h)" and "w \<le> m \<and> h \<le> m"
    and "processImage_canvas env url m = Inr c"
  shows "c = \<lparr>width = w, height = h, drawn = Some (url, w, h)\<rparr>"
  using assms by (auto simp: processImage_canvas_def drawImage_def Let_def split: if_splits)

lemma processImage_canvas_wide:
  assumes "load_image env url = Some (w, h)" and "\<not> (w \<le> m \<and> h \<le> m)" and "h < w"
    and "processImage_canvas env url m = Inr c"
  shows "width c = m \<and>
    height c = nat (Math_round (fl64 (fl64 (of_nat h / of_nat w) * of_nat m))) \<and>
    drawn c = Some (url, width c, height c)"
  using assms by (auto simp: processImage_canvas_def drawImage_def Let_def split: if_splits)

lemma processImage_canvas_tall:
  assumes "load_image env url = Some (w, h)" and "\<not> (w \<le> m \<and> h \<le> m)" and "\<not> h < w"
    and "processImage_canvas env url m = Inr c"
  shows "height c = m \<and>
    width c = nat (Math_round (fl64 (fl64 (of_nat w / of_nat h) * of_nat m))) \<and>
    drawn c = Some (url, width c, height c)"
  using assms by (auto simp: processImage_canvas_def drawImage_def Let_def split: if_splits)

text \<open>
  C1, as amended. Let an image of \<open>w \<times> h\<close> pixels (both below \<open>2 ^ 32\<close>, the range of
  \<^verbatim>\<open>naturalWidth\<close>) be normalized with the default bound. When both dimensions are at most
  1920, the canvas that is encoded has exactly the dimensions of the image. Otherwise its
  larger dimension is 1920 and its smaller one is an integer nearest to
  \<open>smaller * 1920 / larger\<close>: it is within one half of that quotient, and it is
  \<^verbatim>\<open>Math.round\<close> of the quotient whenever the quotient is not half-way between two integers.
\<close>

theorem processImage_dimensions:
  assumes out: "processImage env url 1920 = Inr out"
    and img: "load_image env url = Some (w, h)"
    and w32: "w < 2 ^ 32" and h32: "h < 2 ^ 32"
  shows "\<exists>c. processImage_canvas env url 1920 = Inr c \<and> out = toDataURL env c \<and>
    drawn c = Some (url, width c, height c) \<and>
    (w \<le> 1920 \<and> h \<le> 1920 \<longrightarrow> width c = w \<and> height c = h) \<and>
    (1920 < w \<and> h < w \<longrightarrow>
       width c = 1920 \<and>
       \<bar>of_nat (height c) - (of_nat h * 1920 / of_nat w :: rat)\<bar> \<le> 1 / 2 \<and>
       (frac (of_nat h * 1920 / of_nat w :: rat) \<noteq> 1 / 2 \<longrightarrow>
          int (height c) = Math_round (of_nat h * 1920 / of_nat w))) \<and>
    (1920 < h \<and> w \<le> h \<longrightarrow>
       height c = 1920 \<and>
       \<bar>of_nat (width c) - (of_nat w * 1920 / of_nat h :: rat)\<bar> \<le> 1 / 2 \<and>
       (frac (of_nat w * 1920 / of_nat h :: rat) \<noteq> 1 / 2 \<longrightarrow>
          int (width c) = Math_round (of_nat w * 1920 / of_nat h)))"
proof -
  obtain c where c: "processImage_canvas env url 1920 = Inr c" and o: "out = toDataURL env c"
    using out by (auto simp: processImage_def split: sum.splits)
  have small: "width c = w \<and> height c = h \<and> drawn c = Some (url, width c, height c)"
    if "w \<le> 1920 \<and> h \<le> 1920"
    using processImage_canvas_small[OF img that c] by simp
  have wide: "width c = 1920 \<and>
       \<bar>of_nat (height c) - (of_nat h * 1920 / of_nat w :: rat)\<bar> \<le> 1 / 2 \<and>
       (frac (of_nat h * 1920 / of_nat w :: rat) \<noteq> 1 / 2 \<longrightarrow>
          int (height c) = Math_round (of_nat h * 1920 / of_nat w)) \<and>
       drawn c = Some (url, width c, height c)"
    if "1920 < w \<and> h < w"
  proof -
    have n: "\<not> (w \<le> 1920 \<and> h \<le> 1920)" and hw: "h < w" using that by simp_all
    have le: "h \<le> w" and w0: "0 < w" using that by simp_all
    show ?thesis
      using processImage_canvas_wide[OF img n hw c] scaled_dimension[OF le w0 w32]
      by simp
  qed
  have tall: "height c = 1920 \<and>
       \<bar>of_nat (width c) - (of_nat w * 1920 / of_nat h :: rat)\<bar> \<le> 1 / 2 \<and>
       (frac (of_nat w * 1920 / of_nat h :: rat) \<noteq> 1 / 2 \<longrightarrow>
          int (width c) = Math_round (of_nat w * 1920 / of_nat h)) \<and>
       drawn c = Some (url, width c, height c)"
    if "1920 < h \<and> w \<le> h"
  proof -
    have n: "\<not> (w \<le> 1920 \<and> h \<le> 1920)" and hw: "\<not> h < w" using that by simp_all
    have le: "w \<le> h" and h0: "0 < h" using that by simp_all
    show ?thesis
      using processImage_canvas_tall[OF img n hw c] scaled_dimension[OF le h0 h32]
      by simp
  qed
  have "drawn c = Some (url, width c, height c)"
    using small wide tall by (cases "w \<le> 1920 \<and> h \<le> 1920"; cases "h < w") auto
  then show ?thesis using c o small wide tall by blast
qed

theorem processImage_dimensions_witness:
  "processImage example_browser ''photo'' 1920 = Inr ''png:photo'' \<and>
   load_image example_browser ''photo'' = Some (3000, 2000) \<and>
   (\<exists>c. processImage_canvas example_browser ''photo'' 1920 = Inr c \<and>
        width c = 1920 \<and> int (height c) = Math_round (2000 * 1920 / 3000))"
proof -
  have a: "processImage example_browser ''photo'' 1920 = Inr ''png:photo''" by code_simp
  have b: "load_image example_browser ''photo'' = Some (3000, 2000)" by code_simp
  have c: "(3000::nat) < 2 ^ 32" and d: "(2000::nat) < 2 ^ 32" by simp_all
  have f: "frac (of_nat 2000 * 1920 / of_nat 3000 :: rat) \<noteq> 1 / 2" by (simp add: frac_def)
  from processImage_dimensions[OF a b c d] f a b show ?thesis by auto
qed

text \<open>
  C1 as stated fails half-way between two integers: for an image of 2560 \<times> 1302 pixels the
  double \<open>1302 / 2560\<close> lies below the quotient, so does its product with 1920, and the
  canvas is 976 pixels high, where \<open>1302 * 1920 / 2560 = 976.5\<close> rounds to 977.
\<close>

theorem processImage_rounding_counterexample:
  "load_image example_browser ''wide'' = Some (2560, 1302) \<and>
   processImage_canvas example_browser ''wide'' 1920 =
     Inr \<lparr>width = 1920, height = 976, drawn = Some (''wide'', 1920, 976)\<rparr> \<and>
   Math_round (1302 * 1920 / 2560) = 977"
  by code_simp

section \<open>Back navigation and removal\<close>

text \<open>
  C8. \<^verbatim>\<open>handleBack\<close> sets the phase to \<open>Capturing\<close> and the generated GIF to \<^verbatim>\<open>null\<close>; the
  frame collection and the timing parameter (and the loading flag and the error message)
  are as before, from any phase, \<open>Animating\<close> among them.
\<close>

theorem handleBack_keeps_frames:
  "appState (handleBack s) = Capturing \<and> generatedGif (handleBack s) = None \<and>
   images (handleBack s) = images s \<and> gifSpeed (handleBack s) = gifSpeed s \<and>
   loading (handleBack s) = loading s \<and> error (handleBack s) = error s"
  by (simp add: handleBack_def)

theorem handleBack_keeps_frames_witness:
  "appState (handleBack (initial_state\<lparr>appState := Animating, images := example_frames,
      generatedGif := Some ''gif''\<rparr>)) = Capturing \<and>
   generatedGif (handleBack (initial_state\<lparr>appState := Animating, images := example_frames,
      generatedGif := Some ''gif''\<rparr>)) = None \<and>
   length (images (handleBack (initial_state\<lparr>appState := Animating, images := example_frames,
      generatedGif := Some ''gif''\<rparr>))) = 3 \<and>
   gifSpeed (handleBack (initial_state\<lparr>appState := Animating, images := example_frames,
      generatedGif := Some ''gif''\<rparr>)) = 120"
  using handleBack_keeps_frames [of "initial_state\<lparr>appState := Animating,
      images := example_frames, generatedGif := Some ''gif''\<rparr>"]
  by (simp add: initial_state_def example_frames_def)

lemma filter_other_ids_length:
  "distinct (map frame_id xs) \<Longrightarrow> i \<in> frame_id ` set xs \<Longrightarrow>
   Suc (length (filter (\<lambda>img. frame_id img \<noteq> i) xs)) = length xs"
proof (induction xs)
  case Nil
  then show ?case by simp
next
  case (Cons x xs)
  show ?case
  proof (cases "frame_id x = i")
    case True
    with Cons.prems have "i \<notin> frame_id ` set xs" by auto
    then have "filter (\<lambda>img. frame_id img \<noteq> i) xs = xs" by (auto simp: filter_id_conv)
    with True show ?thesis by simp
  next
    case False
    with Cons show ?thesis by auto
  qed
qed

text \<open>
  C9. \<^verbatim>\<open>handleRemoveImage\<close> keeps, in order, exactly the frames whose id differs from the
  given one, so no frame with that id is left; when no frame has the id, the whole state is
  unchanged; when the ids are distinct and the id is present, one frame goes. The handler
  has no failing branch.
\<close>

theorem handleRemoveImage_removes:
  "images (handleRemoveImage i s) = filter (\<lambda>img. frame_id img \<noteq> i) (images s) \<and>
   i \<notin> frame_id ` set (images (handleRemoveImage i s)) \<and>
   (i \<notin> frame_id ` set (images s) \<longrightarrow> handleRemoveImage i s = s) \<and>
   (i \<in> frame_id ` set (images s) \<and> distinct (map frame_id (images s)) \<longrightarrow>
      Suc (length (images (handleRemoveImage i s))) = length (images s))"
proof -
  have "filter (\<lambda>img. frame_id img \<noteq> i) (images s) = images s"
    if "i \<notin> frame_id ` set (images s)"
    using that by (auto simp: filter_id_conv)
  then show ?thesis
    by (auto simp: handleRemoveImage_def filter_other_ids_length)
qed

theorem handleRemoveImage_removes_witness:
  "handleRemoveImage ''z'' (initial_state\<lparr>images := example_frames\<rparr>) =
     initial_state\<lparr>images := example_frames\<rparr> \<and>
   map frame_id (images (handleRemoveImage ''b'' (initial_state\<lparr>images := example_frames\<rparr>))) =
     [''a'', ''c'']"
  using handleRemoveImage_removes [of "''z''" "initial_state\<lparr>images := example_frames\<rparr>"]
    handleRemoveImage_removes [of "''b''" "initial_state\<lparr>images := example_frames\<rparr>"]
  by (simp add: initial_state_def example_frames_def)

section \<open>Uploading no file\<close>

text \<open>
  C10. With an empty selection (or none) \<^verbatim>\<open>handleFileChange\<close> returns before any setter is
  called: the state, with its loading flag, error message, frames, timing parameter and
  phase, is unchanged.
\<close>

theorem handleFileChange_no_files:
  "handleFileChange env (Some []) schedule s = s \<and> handleFileChange env None schedule s = s"
  by (simp add: handleFileChange_def)

theorem handleFileChange_no_files_witness:
  "loading (handleFileChange example_browser (Some []) [] (initial_state\<lparr>error := Some ''old''\<rparr>))
     = False \<and>
   error (handleFileChange example_browser (Some []) [] (initial_state\<lparr>error := Some ''old''\<rparr>))
     = Some ''old'' \<and>
   error (handleFileChange example_browser
      (Some [\<lparr>file_name = ''small'', file_type = ''image/png''\<rparr>]) [0]
      (initial_state\<lparr>error := Some ''old''\<rparr>)) = None"
proof -
  have "error (handleFileChange example_browser
      (Some [\<lparr>file_name = ''small'', file_type = ''image/png''\<rparr>]) [0]
      (initial_state\<lparr>error := Some ''old''\<rparr>)) = None"
    by code_simp
  then show ?thesis
    using handleFileChange_no_files [of example_browser "[]" "initial_state\<lparr>error := Some ''old''\<rparr>"]
    by (simp add: initial_state_def)
qed

section \<open>Assembly\<close>

text \<open>
  C6. With fewer than two frames \<^verbatim>\<open>handleCreateGif\<close> sets the validation message and
  returns: the encoder is not called, and the phase (\<open>Capturing\<close>, where the button is
  rendered) and the frames are unchanged.
\<close>

theorem handleCreateGif_too_few_frames:
  assumes "length (images s) < 2"
  shows "encoder_calls (handleCreateGif env s) = [] \<and>
    states (handleCreateGif env s) = [s\<lparr>error := Some two_images_message\<rparr>] \<and>
    appState (last (states (handleCreateGif env s))) = appState s \<and>
    images (last (states (handleCreateGif env s))) = images s \<and>
    error (last (states (handleCreateGif env s))) = Some two_images_message"
  using assms by (simp add: handleCreateGif_def)

theorem handleCreateGif_too_few_frames_witness:
  "length (images (initial_state\<lparr>images := [\<lparr>frame_id = ''a'', dataUrl = ''png:small''\<rparr>]\<rparr>)) < 2 \<and>
   encoder_calls (handleCreateGif example_browser
     (initial_state\<lparr>images := [\<lparr>frame_id = ''a'', dataUrl = ''png:small''\<rparr>]\<rparr>)) = [] \<and>
   appState (last (states (handleCreateGif example_browser
     (initial_state\<lparr>images := [\<lparr>frame_id = ''a'', dataUrl = ''png:small''\<rparr>]\<rparr>)))) = Capturing"
proof -
  have h: "length (images (initial_state\<lparr>images := [\<lparr>frame_id = ''a'', dataUrl = ''png:small''\<rparr>]\<rparr>)) < 2"
    by simp
  from handleCreateGif_too_few_frames [OF h, of example_browser] h show ?thesis
    by (simp add: initial_state_def)
qed

text \<open>The two shapes of a run that passes the guard.\<close>

lemma handleCreateGif_probe_failed:
  assumes "2 \<le> length (images s)" and "load_image env (dataUrl (images s ! 0)) = None"
  shows "handleCreateGif env s =
    \<lparr>states = [s\<lparr>appState := Processing, error := None\<rparr>,
               firstImage_onerror (s\<lparr>appState := Processing, error := None\<rparr>)],
     encoder_calls = []\<rparr>"
  using assms by (simp add: handleCreateGif_def Let_def)

lemma handleCreateGif_encoded:
  assumes "2 \<le> length (images s)" and "load_image env (dataUrl (images s ! 0)) = Some (w, h)"
  shows "handleCreateGif env s =
    \<lparr>states = [s\<lparr>appState := Processing, error := None\<rparr>,
               createGIF_callback
                 (createGIF env \<lparr>opt_images = map dataUrl (images s),
                    interval = fl64 (gifSpeed s / 1000), numWorkers = 2,
                    gifWidth = w, gifHeight = h\<rparr>)
                 (s\<lparr>appState := Processing, error := None\<rparr>)],
     encoder_calls = [\<lparr>opt_images = map dataUrl (images s),
                    interval = fl64 (gifSpeed s / 1000), numWorkers = 2,
                    gifWidth = w, gifHeight = h\<rparr>]\<rparr>"
  using assms by (simp add: handleCreateGif_def Let_def)

text \<open>
  C3, as amended. When assembly fails (the first frame does not decode, or the encoder
  reports an error on the call the run makes), the phase goes from \<open>Processing\<close> back to
  \<open>Capturing\<close>, with an error message set and the frames kept; no state of the run is in
  the phase \<open>Error\<close>.
\<close>

theorem handleCreateGif_failure_to_Capturing:
  assumes "2 \<le> length (images s)"
    and "load_image env (dataUrl (images s ! 0)) = None \<or>
         (\<exists>options \<in> set (encoder_calls (handleCreateGif env s)).
            obj_error (createGIF env options))"
  shows "map appState (states (handleCreateGif env s)) = [Processing, Capturing] \<and>
    error (last (states (handleCreateGif env s))) \<noteq> None \<and>
    images (last (states (handleCreateGif env s))) = images s \<and>
    (\<forall>t \<in> set (states (handleCreateGif env s)). appState t \<noteq> Error)"
proof (cases "load_image env (dataUrl (images s ! 0))")
  case None
  show ?thesis
    unfolding handleCreateGif_probe_failed[OF assms(1) None]
    by (simp add: firstImage_onerror_def)
next
  case (Some d)
  obtain w h where d: "d = (w, h)" by (cases d)
  note run = handleCreateGif_encoded[OF assms(1) Some[unfolded d]]
  from assms(2) Some have "obj_error (createGIF env \<lparr>opt_images = map dataUrl (images s),
                    interval = fl64 (gifSpeed s / 1000), numWorkers = 2,
                    gifWidth = w, gifHeight = h\<rparr>)"
    unfolding run by simp
  then show ?thesis
    unfolding run by (simp add: createGIF_callback_def)
qed

theorem handleCreateGif_failure_to_Capturing_witness:
  "2 \<le> length (images (initial_state\<lparr>images := example_frames\<rparr>)) \<and>
   (\<exists>options \<in> set (encoder_calls (handleCreateGif failing_encoder
        (initial_state\<lparr>images := example_frames\<rparr>))).
      obj_error (createGIF failing_encoder options)) \<and>
   map appState (states (handleCreateGif failing_encoder
        (initial_state\<lparr>images := example_frames\<rparr>))) = [Processing, Capturing] \<and>
   length (images (last (states (handleCreateGif failing_encoder
        (initial_state\<lparr>images := example_frames\<rparr>))))) = 3"
proof -
  have a: "2 \<le> length (images (initial_state\<lparr>images := example_frames\<rparr>))"
    by (simp add: example_frames_def)
  have b: "\<exists>options \<in> set (encoder_calls (handleCreateGif failing_encoder
        (initial_state\<lparr>images := example_frames\<rparr>))).
      obj_error (createGIF failing_encoder options)"
    by (simp add: handleCreateGif_def failing_encoder_def example_browser_def
        example_frames_def initial_state_def Let_def)
  from handleCreateGif_failure_to_Capturing[OF a disjI2, OF b] a b show ?thesis
    by (simp add: example_frames_def)
qed

text \<open>
  C3 as stated fails: with three frames and an encoder that reports an error, the run ends
  in \<open>Capturing\<close>, not in \<open>Error\<close>.
\<close>

theorem handleCreateGif_failure_not_Error_counterexample:
  "map appState (states (handleCreateGif failing_encoder
      (initial_state\<lparr>images := example_frames\<rparr>))) = [Processing, Capturing] \<and>
   obj_error (createGIF failing_encoder (hd (encoder_calls (handleCreateGif failing_encoder
      (initial_state\<lparr>images := example_frames\<rparr>))))) \<and>
   appState (last (states (handleCreateGif failing_encoder
      (initial_state\<lparr>images := example_frames\<rparr>)))) \<noteq> Error"
  by (simp add: handleCreateGif_def failing_encoder_def example_browser_def
      example_frames_def initial_state_def createGIF_callback_def Let_def)

text \<open>
  C5, as amended. With at least two frames of which the first decodes to \<open>w \<times> h\<close>, the
  encoder is called exactly once, with the frames' data URLs in collection order, the
  interval \<open>gifSpeed / 1000\<close> as a double, two workers, and width \<open>w\<close> and height \<open>h\<close>; when
  the first frame does not decode, the encoder is not called. The interval of a call is
  within the fraction \<open>2 powi (- 53)\<close> of the exact quotient when that is at least
  \<open>2 powi (- 1022)\<close>, within that fraction plus \<open>2 powi (- 1075)\<close> for every timing parameter
  that is not negative, it is 0 when the quotient is below \<open>2 powi (- 1075)\<close>, and for
  100 ms it is the double \<open>0.1\<close>.
\<close>

theorem handleCreateGif_encoder_call:
  assumes "2 \<le> length (images s)"
  shows "(\<forall>w h. load_image env (dataUrl (images s ! 0)) = Some (w, h) \<longrightarrow>
       encoder_calls (handleCreateGif env s) =
         [\<lparr>opt_images = map dataUrl (images s), interval = fl64 (gifSpeed s / 1000),
           numWorkers = 2, gifWidth = w, gifHeight = h\<rparr>]) \<and>
    (load_image env (dataUrl (images s ! 0)) = None \<longrightarrow>
       encoder_calls (handleCreateGif env s) = []) \<and>
    (\<forall>options \<in> set (encoder_calls (handleCreateGif env s)).
       (2 powi (- 1022) \<le> gifSpeed s / 1000 \<longrightarrow>
          \<bar>interval options - gifSpeed s / 1000\<bar> \<le> gifSpeed s / 1000 / 2 ^ 53) \<and>
       (0 \<le> gifSpeed s \<longrightarrow>
          \<bar>interval options - gifSpeed s / 1000\<bar>
            \<le> gifSpeed s / 1000 / 2 ^ 53 + 2 powi (- 1075)) \<and>
       (0 \<le> gifSpeed s \<and> gifSpeed s / 1000 < 2 powi (- 1075) \<longrightarrow>
          interval options = 0) \<and>
       (gifSpeed s = 100 \<longrightarrow> interval options = fl64 (1 / 10)))"
proof -
  have c1: "\<forall>w h. load_image env (dataUrl (images s ! 0)) = Some (w, h) \<longrightarrow>
       encoder_calls (handleCreateGif env s) =
         [\<lparr>opt_images = map dataUrl (images s), interval = fl64 (gifSpeed s / 1000),
           numWorkers = 2, gifWidth = w, gifHeight = h\<rparr>]"
    using handleCreateGif_encoded[OF assms] by simp
  have c2: "load_image env (dataUrl (images s ! 0)) = None \<longrightarrow>
       encoder_calls (handleCreateGif env s) = []"
    using handleCreateGif_probe_failed[OF assms] by simp
  have c3: "\<forall>options \<in> set (encoder_calls (handleCreateGif env s)).
       (2 powi (- 1022) \<le> gifSpeed s / 1000 \<longrightarrow>
          \<bar>interval options - gifSpeed s / 1000\<bar> \<le> gifSpeed s / 1000 / 2 ^ 53) \<and>
       (0 \<le> gifSpeed s \<longrightarrow>
          \<bar>interval options - gifSpeed s / 1000\<bar>
            \<le> gifSpeed s / 1000 / 2 ^ 53 + 2 powi (- 1075)) \<and>
       (0 \<le> gifSpeed s \<and> gifSpeed s / 1000 < 2 powi (- 1075) \<longrightarrow>
          interval options = 0) \<and>
       (gifSpeed s = 100 \<longrightarrow> interval options = fl64 (1 / 10))"
  proof (intro ballI)
    fix options
    assume o: "options \<in> set (encoder_calls (handleCreateGif env s))"
    have i: "interval options = fl64 (gifSpeed s / 1000)"
    proof (cases "load_image env (dataUrl (images s ! 0))")
      case None
      with o c2 show ?thesis by simp
    next
      case (Some d)
      obtain w h where "d = (w, h)" by (cases d)
      with o c1 Some show ?thesis by simp
    qed
    have n: "2 powi (- 1022) \<le> gifSpeed s / 1000 \<longrightarrow>
          \<bar>interval options - gifSpeed s / 1000\<bar> \<le> gifSpeed s / 1000 / 2 ^ 53"
    proof
      assume "2 powi (- 1022) \<le> gifSpeed s / 1000"
      then have "gifSpeed s / 1000 = 0 \<or> 2 powi (- 1022) \<le> gifSpeed s / 1000" ..
      from fl64_err[OF this]
      show "\<bar>interval options - gifSpeed s / 1000\<bar> \<le> gifSpeed s / 1000 / 2 ^ 53"
        by (simp only: i)
    qed
    have a: "0 \<le> gifSpeed s \<longrightarrow>
          \<bar>interval options - gifSpeed s / 1000\<bar>
            \<le> gifSpeed s / 1000 / 2 ^ 53 + 2 powi (- 1075)"
    proof
      assume "0 \<le> gifSpeed s"
      then have "0 \<le> gifSpeed s / 1000" by simp
      from fl64_err_any[OF this]
      show "\<bar>interval options - gifSpeed s / 1000\<bar>
            \<le> gifSpeed s / 1000 / 2 ^ 53 + 2 powi (- 1075)"
        by (simp only: i)
    qed
    have z: "0 \<le> gifSpeed s \<and> gifSpeed s / 1000 < 2 powi (- 1075) \<longrightarrow>
          interval options = 0"
    proof
      assume g: "0 \<le> gifSpeed s \<and> gifSpeed s / 1000 < 2 powi (- 1075)"
      then have "0 \<le> gifSpeed s / 1000" by simp
      from fl64_underflow[OF this] g show "interval options = 0" by (simp only: i)
    qed
    have h: "gifSpeed s = 100 \<longrightarrow> interval options = fl64 (1 / 10)"
      by (simp add: i)
    from n a z h
    show "(2 powi (- 1022) \<le> gifSpeed s / 1000 \<longrightarrow>
          \<bar>interval options - gifSpeed s / 1000\<bar> \<le> gifSpeed s / 1000 / 2 ^ 53) \<and>
       (0 \<le> gifSpeed s \<longrightarrow>
          \<bar>interval options - gifSpeed s / 1000\<bar>
            \<le> gifSpeed s / 1000 / 2 ^ 53 + 2 powi (- 1075)) \<and>
       (0 \<le> gifSpeed s \<and> gifSpeed s / 1000 < 2 powi (- 1075) \<longrightarrow>
          interval options = 0) \<and>
       (gifSpeed s = 100 \<longrightarrow> interval options = fl64 (1 / 10))"
      by (intro conjI)
  qed
  from c1 c2 c3 show ?thesis by (intro conjI)
qed

theorem handleCreateGif_encoder_call_witness:
  "2 \<le> length (images (initial_state\<lparr>images := example_frames, gifSpeed := 100\<rparr>)) \<and>
   encoder_calls (handleCreateGif example_browser
       (initial_state\<lparr>images := example_frames, gifSpeed := 100\<rparr>)) =
     [\<lparr>opt_images = [''png:photo'', ''png:small'', ''png:wide''],
       interval = 3602879701896397 / 36028797018963968,
       numWorkers = 2, gifWidth = 1920, gifHeight = 1280\<rparr>] \<and>
   map interval (encoder_calls (handleCreateGif example_browser
       (initial_state\<lparr>images := example_frames, gifSpeed := 2 powi (- 1074)\<rparr>))) = [0]"
proof -
  let ?s = "initial_state\<lparr>images := example_frames, gifSpeed := 100\<rparr>"
  let ?t = "initial_state\<lparr>images := example_frames, gifSpeed := 2 powi (- 1074)\<rparr>"
  have a: "2 \<le> length (images ?s)"
    by (simp add: example_frames_def)
  have b: "load_image example_browser (dataUrl (images ?s ! 0)) = Some (1920, 1280)"
    by (simp add: example_frames_def example_browser_def)
  have c: "fl64 (1 / 10) = 3602879701896397 / 36028797018963968"
    by code_simp
  have first: "encoder_calls (handleCreateGif example_browser ?s) =
     [\<lparr>opt_images = [''png:photo'', ''png:small'', ''png:wide''],
       interval = 3602879701896397 / 36028797018963968,
       numWorkers = 2, gifWidth = 1920, gifHeight = 1280\<rparr>]"
    using handleCreateGif_encoder_call[OF a, of example_browser] b c
    by (simp add: example_frames_def)
  have a': "2 \<le> length (images ?t)"
    by (simp add: example_frames_def)
  have b': "load_image example_browser (dataUrl (images ?t ! 0)) = Some (1920, 1280)"
    by (simp add: example_frames_def example_browser_def)
  have "(2::rat) powi (- 1074) / 1000 < 2 powi (- 1074) / 2"
    by (intro divide_strict_left_mono) simp_all
  also have "\<dots> = 2 powi (- 1075)"
    using power_int_diff[of "2::rat" "- 1074" 1] by simp
  finally have u: "0 \<le> gifSpeed ?t \<and> gifSpeed ?t / 1000 < 2 powi (- 1075)"
    by simp
  note t = handleCreateGif_encoder_call[OF a', of example_browser]
  from t b' obtain options where
    o: "encoder_calls (handleCreateGif example_browser ?t) = [options]"
    by blast
  then have "options \<in> set (encoder_calls (handleCreateGif example_browser ?t))"
    by simp
  with t u have "interval options = 0" by blast
  with o have second: "map interval (encoder_calls (handleCreateGif example_browser ?t)) = [0]"
    by simp
  from a first second show ?thesis by (intro conjI)
qed

text \<open>
  C5 as stated fails for a collection of two frames whose first frame does not decode: the
  encoder is not called. Such a collection comes from an upload: an image of 10000 \<times> 1
  pixels is normalized to a canvas of height \<open>Math.round((1 / 10000) * 1920) = 0\<close>.
\<close>

theorem handleCreateGif_no_call_counterexample:
  "images (handleFileChange example_browser
      (Some [\<lparr>file_name = ''sliver'', file_type = ''image/png''\<rparr>,
             \<lparr>file_name = ''small'', file_type = ''image/png''\<rparr>]) [0, 1] initial_state) =
     [\<lparr>frame_id = ''u'', dataUrl = ''png:sliver''\<rparr>,
      \<lparr>frame_id = ''uu'', dataUrl = ''png:small''\<rparr>] \<and>
   load_image example_browser ''png:sliver'' = None \<and>
   encoder_calls (handleCreateGif example_browser (handleFileChange example_browser
      (Some [\<lparr>file_name = ''sliver'', file_type = ''image/png''\<rparr>,
             \<lparr>file_name = ''small'', file_type = ''image/png''\<rparr>]) [0, 1] initial_state)) = []"
  by code_simp

text \<open>
  C7. When the encoder answers the call of the run with an error and the message \<open>m\<close>, the
  callback stores the fixed prefix followed by \<open>m\<close>, which contains \<open>m\<close>, as the error message
  of the session; the run ends in \<open>Capturing\<close>, where assembly can be triggered again, and the
  frames are those from before the run. The stored message is not displayed:
  \<^verbatim>\<open>renderContent\<close> shows \<^verbatim>\<open>{error}\<close> in the phase \<open>Error\<close> only, and the callback has just
  set the phase to \<open>Capturing\<close>. The claim says that the message the user sees contains
  \<open>m\<close>; the code stores the message for the user and then shows none.
\<close>

theorem handleCreateGif_encoder_error_not_displayed:
  assumes "2 \<le> length (images s)"
    and "options \<in> set (encoder_calls (handleCreateGif env s))"
    and "obj_error (createGIF env options)"
  shows "error (last (states (handleCreateGif env s))) =
      Some (gif_failed_prefix @ obj_errorMsg (createGIF env options)) \<and>
    (\<exists>message. error (last (states (handleCreateGif env s))) = Some message \<and>
       sublist (obj_errorMsg (createGIF env options)) message) \<and>
    appState (last (states (handleCreateGif env s))) = Capturing \<and>
    images (last (states (handleCreateGif env s))) = images s \<and>
    generatedGif (last (states (handleCreateGif env s))) = generatedGif s \<and>
    displayed_error (renderContent (last (states (handleCreateGif env s)))) = None"
proof (cases "load_image env (dataUrl (images s ! 0))")
  case None
  with assms(2) show ?thesis
    unfolding handleCreateGif_probe_failed[OF assms(1) None] by simp
next
  case (Some d)
  obtain w h where d: "d = (w, h)" by (cases d)
  note run = handleCreateGif_encoded[OF assms(1) Some[unfolded d]]
  from assms(2) have o: "options = \<lparr>opt_images = map dataUrl (images s),
      interval = fl64 (gifSpeed s / 1000), numWorkers = 2, gifWidth = w, gifHeight = h\<rparr>"
    unfolding run by simp
  have "sublist (obj_errorMsg (createGIF env options))
      (gif_failed_prefix @ obj_errorMsg (createGIF env options))"
    by (rule suffix_imp_sublist) (simp add: suffix_def)
  then show ?thesis
    using assms(3) unfolding run o[symmetric]
    by (simp add: createGIF_callback_def renderContent_def)
qed

theorem handleCreateGif_encoder_error_not_displayed_witness:
  "error (last (states (handleCreateGif failing_encoder
       (initial_state\<lparr>images := example_frames\<rparr>)))) = Some (gif_failed_prefix @ ''oom'') \<and>
   sublist ''oom'' (gif_failed_prefix @ ''oom'') \<and>
   appState (last (states (handleCreateGif failing_encoder
       (initial_state\<lparr>images := example_frames\<rparr>)))) = Capturing \<and>
   images (last (states (handleCreateGif failing_encoder
       (initial_state\<lparr>images := example_frames\<rparr>)))) = example_frames \<and>
   displayed_error (renderContent (last (states (handleCreateGif failing_encoder
       (initial_state\<lparr>images := example_frames\<rparr>))))) = None"
proof -
  let ?o = "\<lparr>opt_images = [''png:photo'', ''png:small'', ''png:wide''],
      interval = fl64 (120 / 1000), numWorkers = 2, gifWidth = 1920, gifHeight = 1280\<rparr>"
  have a: "2 \<le> length (images (initial_state\<lparr>images := example_frames\<rparr>))"
    by (simp add: example_frames_def)
  have b: "?o \<in> set (encoder_calls (handleCreateGif failing_encoder
       (initial_state\<lparr>images := example_frames\<rparr>)))"
    by (simp add: handleCreateGif_def failing_encoder_def example_browser_def
        example_frames_def initial_state_def Let_def)
  have c: "obj_error (createGIF failing_encoder ?o)"
    by (simp add: failing_encoder_def)
  have d: "obj_errorMsg (createGIF failing_encoder ?o) = ''oom''"
    by (simp add: failing_encoder_def)
  from handleCreateGif_encoder_error_not_displayed[OF a b c] show ?thesis
    unfolding d by auto
qed

section \<open>Uploading a batch\<close>

text \<open>
  \<^verbatim>\<open>Promise.all\<close> is fulfilled with the values in the order of the promises once every
  promise has been fulfilled, whatever the schedule; it is rejected once the rejection of
  one promise has arrived, since the value of that promise never arrives.
\<close>

lemma Promise_all_run_fulfilled:
  assumes "length vals = length ps" and "length vs = length ps"
    and "\<forall>i<length ps. ps ! i = Fulfilled (vs ! i)"
    and "\<forall>i<length ps. vals ! i = None \<or> vals ! i = Some (vs ! i)"
    and "None \<in> set vals"
    and "\<forall>i<length ps. vals ! i = None \<longrightarrow> i \<in> set schedule"
  shows "Promise_all_run ps schedule vals = Fulfilled vs"
  using assms
proof (induction schedule arbitrary: vals)
  case Nil
  from Nil.prems(5) obtain j where "j < length vals" and "vals ! j = None"
    by (auto simp: in_set_conv_nth)
  with Nil.prems(1,6) show ?case by auto
next
  case (Cons i schedule)
  show ?case
  proof (cases "length ps \<le> i")
    case True
    have "\<forall>j<length ps. vals ! j = None \<longrightarrow> j \<in> set schedule"
      using Cons.prems(6) True by auto
    with Cons.IH[OF Cons.prems(1,2,3,4,5)] True show ?thesis by simp
  next
    case False
    then have i: "i < length ps" by simp
    have pi: "ps ! i = Fulfilled (vs ! i)" using Cons.prems(3) i by simp
    define vals' where "vals' = vals[i := Some (vs ! i)]"
    have len: "length vals' = length ps" using Cons.prems(1) by (simp add: vals'_def)
    have cons: "\<forall>j<length ps. vals' ! j = None \<or> vals' ! j = Some (vs ! j)"
    proof (intro allI impI)
      fix j assume j: "j < length ps"
      show "vals' ! j = None \<or> vals' ! j = Some (vs ! j)"
      proof (cases "j = i")
        case True
        then show ?thesis using j Cons.prems(1) by (simp add: vals'_def)
      next
        case False
        then show ?thesis using j Cons.prems(4) by (simp add: vals'_def)
      qed
    qed
    show ?thesis
    proof (cases "None \<in> set vals'")
      case True
      have cov: "\<forall>j<length ps. vals' ! j = None \<longrightarrow> j \<in> set schedule"
      proof (intro allI impI)
        fix j assume j: "j < length ps" and n: "vals' ! j = None"
        have ji: "j \<noteq> i" using n j Cons.prems(1) by (auto simp: vals'_def)
        then have "vals ! j = None" using n by (simp add: vals'_def)
        with Cons.prems(6) j ji show "j \<in> set schedule" by auto
      qed
      have "Promise_all_run ps schedule vals' = Fulfilled vs"
        by (rule Cons.IH[OF len Cons.prems(2,3) cons True cov])
      with True i pi show ?thesis by (simp add: vals'_def)
    next
      case False
      have "map the vals' = vs"
      proof (rule nth_equalityI)
        show "length (map the vals') = length vs" using len Cons.prems(2) by simp
      next
        fix j assume "j < length (map the vals')"
        then have j: "j < length ps" using len by simp
        then have "vals' ! j \<in> set vals'" using len by simp
        with False have "vals' ! j \<noteq> None" by metis
        with cons j have "vals' ! j = Some (vs ! j)" by auto
        then show "map the vals' ! j = vs ! j" using j len by simp
      qed
      with False i pi show ?thesis by (simp add: vals'_def)
    qed
  qed
qed

lemma Promise_all_run_rejected:
  assumes "k < length ps" and "ps ! k = Rejected e" and "k \<in> set schedule"
    and "length vals = length ps" and "vals ! k = None"
  shows "\<exists>e'. Promise_all_run ps schedule vals = Rejected e' \<and> Rejected e' \<in> set ps"
  using assms(3,4,5)
proof (induction schedule arbitrary: vals)
  case Nil
  then show ?case by simp
next
  case (Cons i schedule)
  show ?case
  proof (cases "length ps \<le> i")
    case True
    then have "i \<noteq> k" using assms(1) by auto
    with Cons.prems have "k \<in> set schedule" by simp
    from Cons.IH[OF this Cons.prems(2,3)] True show ?thesis by simp
  next
    case False
    then have i: "i < length ps" by simp
    show ?thesis
    proof (cases "ps ! i")
      case (Rejected r)
      then have "Rejected r \<in> set ps" using i by (metis nth_mem)
      with Rejected i show ?thesis by simp
    next
      case Pending
      then have "i \<noteq> k" using assms(2) by auto
      with Cons.prems have "k \<in> set schedule" by simp
      from Cons.IH[OF this Cons.prems(2,3)] Pending i show ?thesis by simp
    next
      case (Fulfilled v)
      then have ik: "i \<noteq> k" using assms(2) by auto
      with Cons.prems have ks: "k \<in> set schedule" by simp
      have len: "length (vals[i := Some v]) = length ps" using Cons.prems(2) by simp
      have kn: "vals[i := Some v] ! k = None" using Cons.prems(3) ik by simp
      have "vals[i := Some v] ! k \<in> set (vals[i := Some v])"
        using assms(1) len by (metis nth_mem)
      then have "None \<in> set (vals[i := Some v])" using kn by simp
      with Cons.IH[OF ks len kn] Fulfilled i show ?thesis by simp
    qed
  qed
qed

lemma Promise_all_fulfilled:
  assumes "ps \<noteq> []" and "length vs = length ps"
    and "\<forall>i<length ps. ps ! i = Fulfilled (vs ! i)"
    and "\<forall>i<length ps. i \<in> set schedule"
  shows "Promise_all ps schedule = Fulfilled vs"
proof -
  have "None \<in> set (replicate (length ps) (None :: 'a option))" using assms(1) by simp
  then have "Promise_all_run ps schedule (replicate (length ps) None) = Fulfilled vs"
    using assms by (intro Promise_all_run_fulfilled) auto
  then show ?thesis using assms(1) by (simp add: Promise_all_def)
qed

lemma Promise_all_rejected:
  assumes "k < length ps" and "ps ! k = Rejected e" and "k \<in> set schedule"
  shows "\<exists>e'. Promise_all ps schedule = Rejected e' \<and> Rejected e' \<in> set ps"
proof -
  have "ps \<noteq> []" using assms(1) by auto
  moreover have "\<exists>e'. Promise_all_run ps schedule (replicate (length ps) None) = Rejected e' \<and>
      Rejected e' \<in> set ps"
    using assms by (intro Promise_all_run_rejected) auto
  ultimately show ?thesis by (simp add: Promise_all_def)
qed

lemma length_imagePromises: "length (imagePromises env fs) = length fs"
  by (simp add: imagePromises_def)

lemma nth_imagePromises:
  "i < length fs \<Longrightarrow> imagePromises env fs ! i = file_promise env i (fs ! i)"
  by (simp add: imagePromises_def nth_enumerate_eq)

text \<open>
  C4. Let every promise of a batch be fulfilled (with \<^verbatim>\<open>null\<close> for a file that is not an
  image, with a frame otherwise), and let the schedule deliver each of them, in any order.
  Then the frames are appended after the existing ones in the order of the selection, the
  loading flag is cleared and no error is set.
\<close>

theorem handleFileChange_appends_in_order:
  assumes "fs \<noteq> []" and "length vs = length fs"
    and "\<forall>i<length fs. file_promise env i (fs ! i) = Fulfilled (vs ! i)"
    and "\<forall>i<length fs. i \<in> set schedule"
  shows "images (handleFileChange env (Some fs) schedule s) =
      images s @ map the (filter (\<lambda>img. img \<noteq> None) vs) \<and>
    loading (handleFileChange env (Some fs) schedule s) = False \<and>
    error (handleFileChange env (Some fs) schedule s) = None \<and>
    appState (handleFileChange env (Some fs) schedule s) = appState s"
proof -
  have ne: "imagePromises env fs \<noteq> []"
    using assms(1) length_imagePromises[of env fs] by (metis length_0_conv)
  have "Promise_all (imagePromises env fs) schedule = Fulfilled vs"
    using ne assms(2,3,4) by (intro Promise_all_fulfilled)
      (simp_all add: length_imagePromises nth_imagePromises)
  then show ?thesis
    using assms(1) by (simp add: handleFileChange_def handleFileChange_settled_def)
qed

theorem handleFileChange_appends_in_order_witness:
  "map dataUrl (images (handleFileChange example_browser
      (Some [\<lparr>file_name = ''photo'', file_type = ''image/jpeg''\<rparr>,
             \<lparr>file_name = ''notes'', file_type = ''text/plain''\<rparr>,
             \<lparr>file_name = ''small'', file_type = ''image/png''\<rparr>,
             \<lparr>file_name = ''wide'', file_type = ''image/jpeg''\<rparr>])
      [3, 1, 0, 2] (initial_state\<lparr>images := [\<lparr>frame_id = ''a'', dataUrl = ''png:small''\<rparr>]\<rparr>))) =
   [''png:small'', ''png:photo'', ''png:small'', ''png:wide'']"
proof -
  let ?fs = "[\<lparr>file_name = ''photo'', file_type = ''image/jpeg''\<rparr>,
             \<lparr>file_name = ''notes'', file_type = ''text/plain''\<rparr>,
             \<lparr>file_name = ''small'', file_type = ''image/png''\<rparr>,
             \<lparr>file_name = ''wide'', file_type = ''image/jpeg''\<rparr>]"
  let ?vs = "[Some \<lparr>frame_id = ''u'', dataUrl = ''png:photo''\<rparr>, None,
              Some \<lparr>frame_id = ''uuu'', dataUrl = ''png:small''\<rparr>,
              Some \<lparr>frame_id = ''uuuu'', dataUrl = ''png:wide''\<rparr>]"
  have p0: "file_promise example_browser 0 (?fs ! 0) = Fulfilled (?vs ! 0)" by code_simp
  have p1: "file_promise example_browser 1 (?fs ! 1) = Fulfilled (?vs ! 1)" by code_simp
  have p2: "file_promise example_browser 2 (?fs ! 2) = Fulfilled (?vs ! 2)" by code_simp
  have p3: "file_promise example_browser 3 (?fs ! 3) = Fulfilled (?vs ! 3)" by code_simp
  have lt: "i = 0 \<or> i = 1 \<or> i = 2 \<or> i = 3" if "i < length ?fs" for i :: nat
    using that by auto
  have a: "?fs \<noteq> []" by simp
  have b: "length ?vs = length ?fs" by simp
  have c: "\<forall>i<length ?fs. file_promise example_browser i (?fs ! i) = Fulfilled (?vs ! i)"
    using lt p0 p1 p2 p3 by blast
  have d: "\<forall>i<length ?fs. i \<in> set [3, 1, 0, 2 :: nat]"
    using lt by fastforce
  from handleFileChange_appends_in_order[OF a b c d,
      of "initial_state\<lparr>images := [\<lparr>frame_id = ''a'', dataUrl = ''png:small''\<rparr>]\<rparr>"]
  show ?thesis by simp
qed

lemma file_promise_rejected:
  assumes "prefix ''image/'' (file_type f)"
    and "readAsDataURL env f = None \<or>
         (\<exists>url. readAsDataURL env f = Some url \<and> url \<noteq> [] \<and> load_image env url = None)"
  shows "\<exists>e. file_promise env i f = Rejected e"
  using assms
  by (auto simp: file_promise_def processImage_def processImage_canvas_def)

text \<open>
  C2. Let a file of the batch, of an image type, fail to read or to decode, and let the
  schedule deliver its rejection. Then the frames are those from before the upload, the
  message of a rejected file of the batch is stored as the error message of the session,
  the phase is unchanged (the upload controls are rendered in \<open>Capturing\<close> only) and the
  loading flag is cleared. The stored message is not displayed: \<^verbatim>\<open>renderContent\<close> shows
  \<^verbatim>\<open>{error}\<close> in the phase \<open>Error\<close> only, which the upload does not enter. The claim says
  that an error message is surfaced; the code stores one for the user and then shows none.
\<close>

theorem handleFileChange_failed_batch:
  assumes "k < length fs" and "k \<in> set schedule"
    and "prefix ''image/'' (file_type (fs ! k))"
    and "readAsDataURL env (fs ! k) = None \<or>
         (\<exists>url. readAsDataURL env (fs ! k) = Some url \<and> url \<noteq> [] \<and>
            load_image env url = None)"
  shows "images (handleFileChange env (Some fs) schedule s) = images s \<and>
    (\<exists>message. error (handleFileChange env (Some fs) schedule s) = Some message \<and>
       (\<exists>j<length fs. file_promise env j (fs ! j) = Rejected message)) \<and>
    appState (handleFileChange env (Some fs) schedule s) = appState s \<and>
    loading (handleFileChange env (Some fs) schedule s) = False \<and>
    (appState s \<noteq> Error \<longrightarrow>
       displayed_error (renderContent (handleFileChange env (Some fs) schedule s)) = None)"
proof -
  obtain e where e: "file_promise env k (fs ! k) = Rejected e"
    using file_promise_rejected[OF assms(3,4)] by blast
  have "imagePromises env fs ! k = Rejected e"
    using assms(1) e by (simp add: nth_imagePromises)
  then obtain e' where r: "Promise_all (imagePromises env fs) schedule = Rejected e'"
    and m: "Rejected e' \<in> set (imagePromises env fs)"
    using Promise_all_rejected[of k "imagePromises env fs" e schedule] assms(1,2)
    by (auto simp: length_imagePromises)
  from m obtain j where j: "j < length fs" "file_promise env j (fs ! j) = Rejected e'"
    by (metis in_set_conv_nth length_imagePromises nth_imagePromises)
  have after: "handleFileChange env (Some fs) schedule s = s\<lparr>error := Some e', loading := False\<rparr>"
    using assms(1) r by (auto simp: handleFileChange_def handleFileChange_settled_def)
  have "displayed_error (renderContent (s\<lparr>error := Some e', loading := False\<rparr>)) = None"
    if "appState s \<noteq> Error"
    using that by (cases "appState s") (simp_all add: renderContent_def split: option.split)
  then show ?thesis
    unfolding after using j by auto
qed

theorem handleFileChange_failed_batch_witness:
  "images (handleFileChange example_browser
      (Some [\<lparr>file_name = ''small'', file_type = ''image/png''\<rparr>,
             \<lparr>file_name = ''corrupt'', file_type = ''image/png''\<rparr>,
             \<lparr>file_name = ''photo'', file_type = ''image/jpeg''\<rparr>])
      [0, 1, 2] (initial_state\<lparr>images := example_frames\<rparr>)) = example_frames \<and>
   error (handleFileChange example_browser
      (Some [\<lparr>file_name = ''small'', file_type = ''image/png''\<rparr>,
             \<lparr>file_name = ''corrupt'', file_type = ''image/png''\<rparr>,
             \<lparr>file_name = ''photo'', file_type = ''image/jpeg''\<rparr>])
      [0, 1, 2] (initial_state\<lparr>images := example_frames\<rparr>)) \<noteq> None \<and>
   appState (handleFileChange example_browser
      (Some [\<lparr>file_name = ''small'', file_type = ''image/png''\<rparr>,
             \<lparr>file_name = ''corrupt'', file_type = ''image/png''\<rparr>,
             \<lparr>file_name = ''photo'', file_type = ''image/jpeg''\<rparr>])
      [0, 1, 2] (initial_state\<lparr>images := example_frames\<rparr>)) = Capturing \<and>
   displayed_error (renderContent (handleFileChange example_browser
      (Some [\<lparr>file_name = ''small'', file_type = ''image/png''\<rparr>,
             \<lparr>file_name = ''corrupt'', file_type = ''image/png''\<rparr>,
             \<lparr>file_name = ''photo'', file_type = ''image/jpeg''\<rparr>])
      [0, 1, 2] (initial_state\<lparr>images := example_frames\<rparr>))) = None"
proof -
  let ?fs = "[\<lparr>file_name = ''small'', file_type = ''image/png''\<rparr>,
             \<lparr>file_name = ''corrupt'', file_type = ''image/png''\<rparr>,
             \<lparr>file_name = ''photo'', file_type = ''image/jpeg''\<rparr>]"
  have a: "1 < length ?fs" by simp
  have b: "1 \<in> set [0, 1, 2 :: nat]" by simp
  have c: "prefix ''image/'' (file_type (?fs ! 1))" by code_simp
  have d: "readAsDataURL example_browser (?fs ! 1) = None \<or>
     (\<exists>url. readAsDataURL example_browser (?fs ! 1) = Some url \<and> url \<noteq> [] \<and>
        load_image example_browser url = None)"
    by (simp add: example_browser_def)
  from handleFileChange_failed_batch[OF a b c d, of "initial_state\<lparr>images := example_frames\<rparr>"]
  show ?thesis by (auto simp: initial_state_def)
qed

end
